theory Spec2Isabelle
  imports Main
begin

section \<open>Errors\<close>

text \<open>
  Every exception the modelled paths of \<^verbatim>\<open>read.py\<close> can raise is a value.
  \<^verbatim>\<open>UnboundLocalError\<close> is what Python raises when \<^verbatim>\<open>data_to_add\<close> is used
  although no branch of the dispatch chain assigned it, \<^verbatim>\<open>NameError\<close> what the call of
  the undefined \<^verbatim>\<open>read_rte\<close> raises.
\<close>

datatype error =
    AmbiguousTimeError
  | NonExistentTimeError
  | ValueError
  | TypeError
  | IndexError
  | NameError
  | UnboundLocalError

section \<open>Frames\<close>

text \<open>
  A \<^verbatim>\<open>pandas.DataFrame\<close> with a datetime index: the column labels, and the rows in
  index order, each a timestamp (minutes since 1970-01-01 00:00, timezone-naive) with
  one cell per column. A missing cell (NaN) is \<open>None\<close>.
\<close>

record ('c, 'v) frame =
  columns :: "'c list"
  rows :: "(int \<times> 'v option list) list"

definition index :: "('c, 'v) frame \<Rightarrow> int list" where
  "index f = map fst (rows f)"

text \<open>\<^verbatim>\<open>pd.DataFrame()\<close>\<close>

definition empty_frame :: "('c, 'v) frame" where
  "empty_frame = \<lparr>columns = [], rows = []\<rparr>"

text \<open>\<^verbatim>\<open>DataFrame.empty\<close>: one of the two axes has length 0.\<close>

definition frame_empty :: "('c, 'v) frame \<Rightarrow> bool" where
  "frame_empty f = (rows f = [] \<or> columns f = [])"

text \<open>
  The value of the cell at row label \<open>t\<close> and column \<open>c\<close>, missing when the frame has no
  such row or no such column.
\<close>

definition cell :: "('c, 'v) frame \<Rightarrow> int \<Rightarrow> 'c \<Rightarrow> 'v option" where
  "cell f t c =
     (case map_of (rows f) t of
        None \<Rightarrow> None
      | Some r \<Rightarrow> (case map_of (zip (columns f) r) c of None \<Rightarrow> None | Some v \<Rightarrow> v))"

section \<open>Aggregator\<close>

text \<open>
  \<^verbatim>\<open>DataFrame.combine_first(other)\<close>: the result is labelled by the union of the two
  indexes (sorted, each label once) and the union of the two column sets; each cell is
  the caller's value unless that is missing, and the other frame's value then.
\<close>

definition first_non_null :: "'v option \<Rightarrow> 'v option \<Rightarrow> 'v option" where
  "first_non_null x y = (case x of Some v \<Rightarrow> Some v | None \<Rightarrow> y)"

definition combine_first :: "('c, 'v) frame \<Rightarrow> ('c, 'v) frame \<Rightarrow> ('c, 'v) frame" where
  "combine_first a b =
     (let new_index = sort (remdups (index a @ index b));
          new_columns = remdups (columns a @ columns b)
      in \<lparr>columns = new_columns,
          rows = map (\<lambda>t. (t, map (\<lambda>c. first_non_null (cell a t c) (cell b t c)) new_columns))
                     new_index\<rparr>)"

text \<open>
  The body of the loop of \<^verbatim>\<open>read\<close> that adds the frame of one file:
  \<^verbatim>\<open>
  if data_set.empty:
      data_set = data_to_add
  else:
      data_set = data_set.combine_first(data_to_add)
  \<close>
\<close>

definition add_frame :: "('c, 'v) frame \<Rightarrow> ('c, 'v) frame \<Rightarrow> ('c, 'v) frame" where
  "add_frame data_set data_to_add =
     (if frame_empty data_set then data_to_add else combine_first data_set data_to_add)"

section \<open>Calendar dates\<close>

text \<open>
  A \<^verbatim>\<open>datetime.date\<close>. Python orders dates by year, then month, then day.
\<close>

record date =
  year :: int
  month :: int
  day :: int

definition date_less :: "date \<Rightarrow> date \<Rightarrow> bool" where
  "date_less a b =
     (year a < year b \<or> (year a = year b \<and>
       (month a < month b \<or> (month a = month b \<and> day a < day b))))"

definition is_leap :: "int \<Rightarrow> bool" where
  "is_leap y = (y mod 4 = 0 \<and> (y mod 100 \<noteq> 0 \<or> y mod 400 = 0))"

definition days_in_month :: "int \<Rightarrow> int \<Rightarrow> int" where
  "days_in_month y m =
     (if m = 2 then (if is_leap y then 29 else 28)
      else if m = 4 \<or> m = 6 \<or> m = 9 \<or> m = 11 then 30 else 31)"

definition valid_date :: "int \<Rightarrow> int \<Rightarrow> int \<Rightarrow> bool" where
  "valid_date y m d = (1 \<le> y \<and> y \<le> 9999 \<and> 1 \<le> m \<and> m \<le> 12 \<and> 1 \<le> d \<and> d \<le> days_in_month y m)"

text \<open>
  Timestamps are counted in minutes since 1970-01-01 00:00. The number of days between
  1970-01-01 and a date of the proleptic Gregorian calendar, and the date of a day
  number, are computed over 400-year eras that begin on 1 March.
\<close>

definition days_from_civil :: "int \<Rightarrow> int \<Rightarrow> int \<Rightarrow> int" where
  "days_from_civil y m d =
     (let y' = (if m \<le> 2 then y - 1 else y);
          era = y' div 400;
          yoe = y' - era * 400;
          doy = (153 * (m + (if m > 2 then - 3 else 9)) + 2) div 5 + d - 1;
          doe = yoe * 365 + yoe div 4 - yoe div 100 + doy
      in era * 146097 + doe - 719468)"

definition civil_from_days :: "int \<Rightarrow> date" where
  "civil_from_days z =
     (let z' = z + 719468;
          era = z' div 146097;
          doe = z' - era * 146097;
          yoe = (doe - doe div 1460 + doe div 36524 - doe div 146096) div 365;
          doy = doe - (365 * yoe + yoe div 4 - yoe div 100);
          mp = (5 * doy + 2) div 153;
          d = doy - (153 * mp + 2) div 5 + 1;
          m = mp + (if mp < 10 then 3 else - 9)
      in \<lparr>year = yoe + era * 400 + (if m \<le> 2 then 1 else 0), month = m, day = d\<rparr>)"

text \<open>\<^verbatim>\<open>datetime.combine(d, time())\<close>: midnight of the date, as a naive timestamp.\<close>

definition midnight :: "date \<Rightarrow> int" where
  "midnight d = days_from_civil (year d) (month d) (day d) * 1440"

section \<open>Time zones\<close>

text \<open>
  The transition table of a pytz time zone (\<^verbatim>\<open>_utc_transition_times\<close> with
  \<^verbatim>\<open>_transition_info\<close>), in ascending order: the UTC instant of a transition, and the
  UTC offset in minutes and the DST flag in force from it on. The table is data of the
  tz database and a parameter of everything below. The first entry is in force before
  the first transition as well: pytz and pandas both clamp the position found by
  bisection at 0.
\<close>

type_synonym tzinfo = "(int \<times> int \<times> bool) list"

fun transition_info :: "tzinfo \<Rightarrow> int \<Rightarrow> int \<times> bool" where
  "transition_info [] t = (0, False)"
| "transition_info [(tr, info)] t = info"
| "transition_info ((tr, info) # (tr', info') # rest) t =
     (if t < tr' then info else transition_info ((tr', info') # rest) t)"

definition utcoffset :: "tzinfo \<Rightarrow> int \<Rightarrow> int" where
  "utcoffset tz t = fst (transition_info tz t)"

text \<open>
  Both pytz's \<^verbatim>\<open>localize\<close> and pandas' \<^verbatim>\<open>tz_localize_to_utc\<close> find the UTC instants of
  a naive local time \<open>l\<close> the same way: take the offset in force one day before and one
  day after \<open>l\<close> (read as if it were UTC), subtract it, and keep the result when the
  offset in force at that instant is the offset subtracted.
\<close>

definition localize_candidate :: "tzinfo \<Rightarrow> int \<Rightarrow> int \<Rightarrow> int option" where
  "localize_candidate tz l probe =
     (let v = l - utcoffset tz probe
      in if v + utcoffset tz v = l then Some v else None)"

definition DAY :: int where
  "DAY = 1440"

text \<open>
  \<^verbatim>\<open>tz.localize(dt)\<close> of pytz with its default \<^verbatim>\<open>is_dst=False\<close>, followed by
  \<^verbatim>\<open>astimezone(UTC)\<close>. One possible instant is returned as it is. Of two, the one
  whose DST flag is off is returned; when that does not single one out, the later of the
  candidates left. With none (a local time skipped at the start of DST) pytz localizes
  the time six hours earlier and adds the six hours back; a second skipped time in a row
  would recurse again in pytz and is an error here.
\<close>

definition possible_loc_dt :: "tzinfo \<Rightarrow> int \<Rightarrow> int list" where
  "possible_loc_dt tz l =
     remdups (List.map_filter (localize_candidate tz l) [l - DAY, l + DAY])"

definition choose_loc_dt :: "tzinfo \<Rightarrow> int list \<Rightarrow> int option" where
  "choose_loc_dt tz possible =
     (case possible of
        [] \<Rightarrow> None
      | [p] \<Rightarrow> Some p
      | _ \<Rightarrow>
         (let filtered = filter (\<lambda>p. \<not> snd (transition_info tz p)) possible
          in case filtered of
               [p] \<Rightarrow> Some p
             | [] \<Rightarrow> Some (Max (set possible))
             | _ \<Rightarrow> Some (Max (set filtered))))"

definition pytz_localize :: "tzinfo \<Rightarrow> int \<Rightarrow> error + int" where
  "pytz_localize tz l =
     (case choose_loc_dt tz (possible_loc_dt tz l) of
        Some u \<Rightarrow> Inr u
      | None \<Rightarrow>
         (case choose_loc_dt tz (possible_loc_dt tz (l - 360)) of
            Some u \<Rightarrow> Inr (u + 360)
          | None \<Rightarrow> Inl NonExistentTimeError))"

section \<open>Reindexing and slicing\<close>

text \<open>
  \<^verbatim>\<open>pd.DatetimeIndex(start=..., end=..., freq=...)\<close>: the timestamps from \<open>start\<close> on,
  one every \<open>step\<close> minutes, that are not after \<open>end\<close>.
\<close>

definition date_range :: "int \<Rightarrow> int \<Rightarrow> int \<Rightarrow> int list" where
  "date_range start end step =
     (if end < start then []
      else map (\<lambda>k. start + int k * step) [0..<Suc (nat ((end - start) div step))])"

text \<open>
  \<^verbatim>\<open>DataFrame.reindex(index=new_index)\<close> with no fill method: a label of the new index
  the frame has keeps its row, any other label gets a row of missing values. pandas
  refuses to reindex a frame whose own index holds a label twice.
\<close>

definition reindex :: "('c, 'v) frame \<Rightarrow> int list \<Rightarrow> error + ('c, 'v) frame" where
  "reindex f new_index =
     (if \<not> distinct (index f) then Inl ValueError
      else Inr \<lparr>columns = columns f,
                rows = map (\<lambda>t. (t, case map_of (rows f) t of
                                       Some r \<Rightarrow> r
                                     | None \<Rightarrow> replicate (length (columns f)) None))
                           new_index\<rparr>)"

text \<open>
  \<^verbatim>\<open>df.loc[start:end, :]\<close> on a sorted datetime index: the rows whose label lies between
  the two bounds, both included; \<^verbatim>\<open>None\<close> leaves a side open.
\<close>

definition loc_slice :: "('c, 'v) frame \<Rightarrow> int option \<Rightarrow> int option \<Rightarrow> ('c, 'v) frame" where
  "loc_slice f start end =
     \<lparr>columns = columns f,
      rows = filter (\<lambda>(t, r). (case start of None \<Rightarrow> True | Some s \<Rightarrow> s \<le> t) \<and>
                              (case end of None \<Rightarrow> True | Some e \<Rightarrow> t \<le> e))
                    (rows f)\<rparr>"

section \<open>Containers and their reporting periods\<close>

text \<open>\<^verbatim>\<open>str.split(sep)\<close> for a one-character separator.\<close>

fun split_on :: "char \<Rightarrow> string \<Rightarrow> string list" where
  "split_on sep [] = [[]]"
| "split_on sep (c # cs) =
     (if c = sep then [] # split_on sep cs
      else (case split_on sep cs of [] \<Rightarrow> [[c]] | w # ws \<Rightarrow> (c # w) # ws))"

definition digit :: "char \<Rightarrow> int option" where
  "digit c = (let n = (of_char c :: nat) in if 48 \<le> n \<and> n \<le> 57 then Some (int n - 48) else None)"

fun number :: "int \<Rightarrow> string \<Rightarrow> int option" where
  "number acc [] = Some acc"
| "number acc (c # cs) = (case digit c of None \<Rightarrow> None | Some d \<Rightarrow> number (10 * acc + d) cs)"

text \<open>
  \<^verbatim>\<open>yaml.load(token)\<close> as the loop of \<^verbatim>\<open>read\<close> uses it, to turn a token of a container
  name into a date. YAML reads a plain scalar of the shape \<^verbatim>\<open>YYYY-MM-DD\<close> as a date (and
  fails with \<^verbatim>\<open>ValueError\<close> when the calendar has no such day); any other token becomes a
  string or a number, and Python 3 then raises \<^verbatim>\<open>TypeError\<close> when the caller's date is
  compared with it. Both failures are the error of the result here.
\<close>

definition yaml_load_date :: "string \<Rightarrow> error + date" where
  "yaml_load_date tok =
     (if length tok = 10 \<and> tok ! 4 = CHR ''-'' \<and> tok ! 7 = CHR ''-'' then
        (case (number 0 (take 4 tok), number 0 (take 2 (drop 5 tok)), number 0 (drop 8 tok)) of
           (Some y, Some m, Some d) \<Rightarrow>
             if valid_date y m d then Inr \<lparr>year = y, month = m, day = d\<rparr> else Inl ValueError
         | _ \<Rightarrow> Inl TypeError)
      else Inl TypeError)"

text \<open>
  A container: its directory name and the files in it, each with its size in bytes and
  its content.
\<close>

type_synonym 'f container = "string \<times> (nat \<times> 'f) list"

text \<open>
  The two tests at the head of the loop body:
  \<^verbatim>\<open>
  if start_from_user:
      if start_from_user > yaml.load(container.split('_')[1]):
          continue
  if end_from_user:
      if end_from_user < yaml.load(container.split('_')[0]):
          continue
  \<close>
  \<open>Inr True\<close> is \<^verbatim>\<open>continue\<close>. A name without an underscore has no token 1.
\<close>

definition too_old :: "date option \<Rightarrow> string \<Rightarrow> error + bool" where
  "too_old start_from_user container =
     (case start_from_user of
        None \<Rightarrow> Inr False
      | Some s \<Rightarrow>
         (case drop 1 (split_on CHR ''_'' container) of
            [] \<Rightarrow> Inl IndexError
          | tok # _ \<Rightarrow>
             (case yaml_load_date tok of Inl e \<Rightarrow> Inl e | Inr d \<Rightarrow> Inr (date_less d s))))"

definition too_recent :: "date option \<Rightarrow> string \<Rightarrow> error + bool" where
  "too_recent end_from_user container =
     (case end_from_user of
        None \<Rightarrow> Inr False
      | Some e \<Rightarrow>
         (case split_on CHR ''_'' container of
            [] \<Rightarrow> Inl IndexError
          | tok # _ \<Rightarrow>
             (case yaml_load_date tok of Inl err \<Rightarrow> Inl err | Inr d \<Rightarrow> Inr (date_less e d))))"

definition period_excluded :: "date option \<Rightarrow> date option \<Rightarrow> string \<Rightarrow> error + bool" where
  "period_excluded start_from_user end_from_user container =
     (case too_old start_from_user container of
        Inl e \<Rightarrow> Inl e
      | Inr True \<Rightarrow> Inr True
      | Inr False \<Rightarrow> too_recent end_from_user container)"

section \<open>Adapter dispatch\<close>

text \<open>
  The adapters parse one file into a frame. What they do to the bytes of a file
  (\<^verbatim>\<open>pd.read_csv\<close>, \<^verbatim>\<open>pd.read_excel\<close>) is a parameter here: one function per adapter,
  from the content of a file to the frame returned or the exception raised, with the
  \<^verbatim>\<open>variable_name\<close> for the adapters that take it. The \<^verbatim>\<open>url\<close> and \<^verbatim>\<open>headers\<close>
  arguments only label the columns and are part of these functions.
\<close>

record ('f, 'c, 'v) adapters =
  adapt_opsd :: "'f \<Rightarrow> error + ('c, 'v) frame"
  adapt_ceps :: "string \<Rightarrow> 'f \<Rightarrow> error + ('c, 'v) frame"
  adapt_entso_e_portal :: "'f \<Rightarrow> error + ('c, 'v) frame"
  adapt_energinet_dk :: "'f \<Rightarrow> error + ('c, 'v) frame"
  adapt_elia :: "string \<Rightarrow> 'f \<Rightarrow> error + ('c, 'v) frame"
  adapt_pse :: "string \<Rightarrow> 'f \<Rightarrow> error + ('c, 'v) frame"
  adapt_svenska_kraftnaet :: "string \<Rightarrow> 'f \<Rightarrow> error + ('c, 'v) frame"
  adapt_hertz :: "string \<Rightarrow> 'f \<Rightarrow> error + ('c, 'v) frame"
  adapt_amprion :: "string \<Rightarrow> 'f \<Rightarrow> error + ('c, 'v) frame"
  adapt_tennet :: "string \<Rightarrow> 'f \<Rightarrow> error + ('c, 'v) frame"
  adapt_transnetbw :: "string \<Rightarrow> 'f \<Rightarrow> error + ('c, 'v) frame"

text \<open>
  The \<^verbatim>\<open>if\<close>/\<^verbatim>\<open>elif\<close> chain of \<^verbatim>\<open>read\<close>, in its order, up to the first use of
  \<^verbatim>\<open>data_to_add\<close>. The module defines no \<^verbatim>\<open>read_rte\<close>, so the branch for
  \<^verbatim>\<open>'RTE'\<close> raises \<^verbatim>\<open>NameError\<close>. The chain has no \<^verbatim>\<open>else\<close>: for any other name no
  branch assigns \<^verbatim>\<open>data_to_add\<close>, and the statement after the chain, which reads it,
  raises \<^verbatim>\<open>UnboundLocalError\<close>.
\<close>

definition dispatch ::
  "('f, 'c, 'v) adapters \<Rightarrow> string \<Rightarrow> string \<Rightarrow> 'f \<Rightarrow> error + ('c, 'v) frame" where
  "dispatch ad source_name variable_name file =
     (if source_name = ''OPSD'' then adapt_opsd ad file
      else if source_name = ''CEPS'' then adapt_ceps ad variable_name file
      else if source_name = ''ENTSO-E Data Portal'' then adapt_entso_e_portal ad file
      else if source_name = ''Energinet.dk'' then adapt_energinet_dk ad file
      else if source_name = ''Elia'' then adapt_elia ad variable_name file
      else if source_name = ''PSE'' then adapt_pse ad variable_name file
      else if source_name = ''RTE'' then Inl NameError
      else if source_name = ''Svenska Kraftnaet'' then adapt_svenska_kraftnaet ad variable_name file
      else if source_name = ''50Hertz'' then adapt_hertz ad variable_name file
      else if source_name = ''Amprion'' then adapt_amprion ad variable_name file
      else if source_name = ''TenneT'' then adapt_tennet ad variable_name file
      else if source_name = ''TransnetBW'' then adapt_transnetbw ad variable_name file
      else Inl UnboundLocalError)"


section \<open>The entry point\<close>

text \<open>
  One pass of the loop over the containers, up to the frame to add: \<open>Inr None\<close> when the
  container contributes nothing (its period is excluded, it holds no file or more than
  one, or its file is smaller than 128 bytes), \<open>Inr (Some f)\<close> when its file was read
  into \<open>f\<close>. The files of a container are only looked at after the two period tests.
\<close>

definition read_container ::
  "('f, 'c, 'v) adapters \<Rightarrow> string \<Rightarrow> string \<Rightarrow> date option \<Rightarrow> date option \<Rightarrow>
     'f container \<Rightarrow> error + ('c, 'v) frame option" where
  "read_container ad source_name variable_name start_from_user end_from_user container =
     (case period_excluded start_from_user end_from_user (fst container) of
        Inl e \<Rightarrow> Inl e
      | Inr True \<Rightarrow> Inr None
      | Inr False \<Rightarrow>
         (case snd container of
            [] \<Rightarrow> Inr None
          | [(getsize, file)] \<Rightarrow>
             if getsize < 128 then Inr None
             else (case dispatch ad source_name variable_name file of
                     Inl e \<Rightarrow> Inl e
                   | Inr data_to_add \<Rightarrow> Inr (Some data_to_add))
          | _ \<Rightarrow> Inr None))"

fun read_loop ::
  "('f, 'c, 'v) adapters \<Rightarrow> string \<Rightarrow> string \<Rightarrow> date option \<Rightarrow> date option \<Rightarrow>
     'f container list \<Rightarrow> ('c, 'v) frame \<Rightarrow> error + ('c, 'v) frame" where
  "read_loop ad source_name variable_name start_from_user end_from_user [] data_set =
     Inr data_set"
| "read_loop ad source_name variable_name start_from_user end_from_user (container # rest) data_set =
     (case read_container ad source_name variable_name start_from_user end_from_user container of
        Inl e \<Rightarrow> Inl e
      | Inr None \<Rightarrow>
          read_loop ad source_name variable_name start_from_user end_from_user rest data_set
      | Inr (Some data_to_add) \<Rightarrow>
          read_loop ad source_name variable_name start_from_user end_from_user rest
            (add_frame data_set data_to_add))"

text \<open>The resolution of a series, \<^verbatim>\<open>'15min'\<close> or \<^verbatim>\<open>'60min'\<close>, and \<^verbatim>\<open>int(res_key[:2])\<close>.\<close>

datatype res_key = Res15min | Res60min

fun minutes :: "res_key \<Rightarrow> int" where
  "minutes Res15min = 15"
| "minutes Res60min = 60"

text \<open>
  The reindexing step of \<^verbatim>\<open>read\<close>:
  \<^verbatim>\<open>
  no_gaps = pd.DatetimeIndex(start=data_set.index[0], end=data_set.index[-1], freq=res_key)
  data_set = data_set.reindex(index=no_gaps)
  \<close>
\<close>

definition no_gaps :: "('c, 'v) frame \<Rightarrow> res_key \<Rightarrow> int list" where
  "no_gaps data_set res = date_range (hd (index data_set)) (last (index data_set)) (minutes res)"

definition expose_gaps :: "('c, 'v) frame \<Rightarrow> res_key \<Rightarrow> error + ('c, 'v) frame" where
  "expose_gaps data_set res =
     (if rows data_set = [] then Inl IndexError else reindex data_set (no_gaps data_set res))"

text \<open>
  The conversion of the caller's bounds and the cut:
  \<^verbatim>\<open>
  if start_from_user:
      start_from_user = (pytz.timezone('Europe/Brussels')
          .localize(datetime.combine(start_from_user, time()))
          .astimezone(pytz.timezone('UTC')))
  if end_from_user:
      end_from_user = (pytz.timezone('Europe/Brussels')
          .localize(datetime.combine(end_from_user, time()))
          .astimezone(pytz.timezone('UTC'))) - timedelta(minutes=int(res_key[:2]))
  data_set = data_set.loc[start_from_user:end_from_user, :]
  \<close>
  \<open>brussels\<close> is the transition table of \<^verbatim>\<open>Europe/Brussels\<close>.
\<close>

definition start_utc :: "tzinfo \<Rightarrow> date option \<Rightarrow> error + int option" where
  "start_utc brussels start_from_user =
     (case start_from_user of
        None \<Rightarrow> Inr None
      | Some d \<Rightarrow> (case pytz_localize brussels (midnight d) of Inl e \<Rightarrow> Inl e | Inr u \<Rightarrow> Inr (Some u)))"

definition end_utc :: "tzinfo \<Rightarrow> res_key \<Rightarrow> date option \<Rightarrow> error + int option" where
  "end_utc brussels res end_from_user =
     (case end_from_user of
        None \<Rightarrow> Inr None
      | Some d \<Rightarrow>
         (case pytz_localize brussels (midnight d) of
            Inl e \<Rightarrow> Inl e
          | Inr u \<Rightarrow> Inr (Some (u - minutes res))))"

definition cut_off ::
  "tzinfo \<Rightarrow> res_key \<Rightarrow> date option \<Rightarrow> date option \<Rightarrow> ('c, 'v) frame \<Rightarrow> error + ('c, 'v) frame" where
  "cut_off brussels res start_from_user end_from_user data_set =
     (case start_utc brussels start_from_user of
        Inl e \<Rightarrow> Inl e
      | Inr s \<Rightarrow>
         (case end_utc brussels res end_from_user of
            Inl e \<Rightarrow> Inl e
          | Inr e \<Rightarrow> Inr (loc_slice data_set s e)))"


section \<open>Localizing an index\<close>

text \<open>
  \<^verbatim>\<open>DatetimeIndex.tz_localize(tz, ambiguous=...)\<close> followed by \<^verbatim>\<open>tz_convert(None)\<close>: the
  UTC instants of a list of naive local timestamps, as pandas' \<^verbatim>\<open>tz_localize_to_utc\<close>
  computes them. Each timestamp gets two candidates, \<open>result_a\<close> from the offset in
  force a day earlier and \<open>result_b\<close> from the offset in force a day later. A timestamp
  is ambiguous when both exist and differ (the hour repeated when the clocks go back:
  \<open>result_a\<close> is the summer-time reading, \<open>result_b\<close> the winter-time one), and does not
  exist when neither does (the hour skipped when the clocks go forward).
\<close>

definition result_a :: "tzinfo \<Rightarrow> int \<Rightarrow> int option" where
  "result_a tz l = localize_candidate tz l (l - DAY)"

definition result_b :: "tzinfo \<Rightarrow> int \<Rightarrow> int option" where
  "result_b tz l = localize_candidate tz l (l + DAY)"

definition is_ambiguous :: "tzinfo \<Rightarrow> int \<Rightarrow> bool" where
  "is_ambiguous tz l =
     (case (result_a tz l, result_b tz l) of (Some a, Some b) \<Rightarrow> a \<noteq> b | _ \<Rightarrow> False)"

text \<open>\<^verbatim>\<open>np.diff\<close>\<close>

fun diff :: "int list \<Rightarrow> int list" where
  "diff (x # y # ys) = (y - x) # diff (y # ys)"
| "diff _ = []"

text \<open>
  \<^verbatim>\<open>ambiguous='infer'\<close>, for one maximal run of consecutive ambiguous timestamps, given as
  the pairs of their two candidates. The run must step back exactly once (a difference
  that is not positive): the timestamps before the step are read as summer time, those
  from the step on as winter time. A run of one timestamp, a run that never steps back
  and a run that steps back more than once raise \<^verbatim>\<open>AmbiguousTimeError\<close>.
\<close>

definition infer_group :: "(int \<times> int) list \<Rightarrow> error + int list" where
  "infer_group grp =
     (let delta = diff (map fst grp)
      in if length grp = 1 \<or> list_all (\<lambda>d. 0 < d) delta then Inl AmbiguousTimeError
         else let switch_idx = filter (\<lambda>k. delta ! k \<le> 0) [0..<length delta]
              in if 1 < length switch_idx then Inl AmbiguousTimeError
                 else let k = Suc (hd switch_idx)
                      in Inr (map fst (take k grp) @ map snd (drop k grp)))"

definition flush_group :: "(int \<times> int) list \<Rightarrow> error + int option list" where
  "flush_group grp =
     (if grp = [] then Inr []
      else (case infer_group grp of Inl e \<Rightarrow> Inl e | Inr hs \<Rightarrow> Inr (map Some hs)))"

text \<open>
  The pass over the whole index that fills \<^verbatim>\<open>dst_hours\<close>: \<open>grp\<close> collects the run of
  ambiguous timestamps being read; a timestamp that is not ambiguous ends the run and
  gets no entry (\<open>None\<close>, pandas' \<^verbatim>\<open>NaT\<close>).
\<close>

fun infer_dst_hours :: "tzinfo \<Rightarrow> (int \<times> int) list \<Rightarrow> int list \<Rightarrow> error + int option list" where
  "infer_dst_hours tz grp [] = flush_group grp"
| "infer_dst_hours tz grp (l # ls) =
     (case (result_a tz l, result_b tz l) of
        (Some a, Some b) \<Rightarrow>
          if a \<noteq> b then infer_dst_hours tz (grp @ [(a, b)]) ls
          else (case flush_group grp of
                  Inl e \<Rightarrow> Inl e
                | Inr hs \<Rightarrow> (case infer_dst_hours tz [] ls of
                              Inl e \<Rightarrow> Inl e
                            | Inr ds \<Rightarrow> Inr (hs @ None # ds)))
      | _ \<Rightarrow>
          (case flush_group grp of
             Inl e \<Rightarrow> Inl e
           | Inr hs \<Rightarrow> (case infer_dst_hours tz [] ls of
                         Inl e \<Rightarrow> Inl e
                       | Inr ds \<Rightarrow> Inr (hs @ None # ds))))"

text \<open>
  The \<^verbatim>\<open>ambiguous\<close> argument: \<^verbatim>\<open>'raise'\<close> (the default), \<^verbatim>\<open>'infer'\<close>, or an array of
  flags, one per timestamp, \<^verbatim>\<open>True\<close> for summer time.
\<close>

datatype ambiguous = Raise | Infer | Flags "bool list"

text \<open>
  The final loop of \<^verbatim>\<open>tz_localize_to_utc\<close> for one timestamp: \<open>hint\<close> is what settles an
  ambiguous timestamp (\<open>None\<close> when nothing does).
\<close>

definition resolve :: "tzinfo \<Rightarrow> int \<Rightarrow> int option \<Rightarrow> error + int" where
  "resolve tz l hint =
     (case (result_a tz l, result_b tz l) of
        (Some a, Some b) \<Rightarrow>
          if a = b then Inr a
          else (case hint of Some u \<Rightarrow> Inr u | None \<Rightarrow> Inl AmbiguousTimeError)
      | (Some a, None) \<Rightarrow> Inr a
      | (None, Some b) \<Rightarrow> Inr b
      | (None, None) \<Rightarrow> Inl NonExistentTimeError)"

text \<open>The first exception of a list of results, or all the values.\<close>

fun sequence :: "(error + 'a) list \<Rightarrow> error + 'a list" where
  "sequence [] = Inr []"
| "sequence (x # xs) =
     (case x of
        Inl e \<Rightarrow> Inl e
      | Inr v \<Rightarrow> (case sequence xs of Inl e \<Rightarrow> Inl e | Inr vs \<Rightarrow> Inr (v # vs)))"

definition tz_localize :: "tzinfo \<Rightarrow> ambiguous \<Rightarrow> int list \<Rightarrow> error + int list" where
  "tz_localize tz amb vals =
     (case amb of
        Raise \<Rightarrow> sequence (map (\<lambda>l. resolve tz l None) vals)
      | Infer \<Rightarrow>
          (case infer_dst_hours tz [] vals of
             Inl e \<Rightarrow> Inl e
           | Inr dst_hours \<Rightarrow> sequence (map (\<lambda>(l, h). resolve tz l h) (zip vals dst_hours)))
      | Flags dst_arr \<Rightarrow>
          if length dst_arr \<noteq> length vals then Inl ValueError
          else sequence (map (\<lambda>(l, dst). resolve tz l (if dst then result_a tz l else result_b tz l))
                             (zip vals dst_arr)))"

section \<open>Spring transition dates\<close>

text \<open>
  \<^verbatim>\<open>d.replace(hour=h)\<close> on a timestamp, and the lists the adapters build from the
  transition table of a zone:
  \<^verbatim>\<open>
  dst_transitions_spring = [d.replace(hour=2) for d in tz._utc_transition_times
                            if d.year >= 2000 and d.month == 3]
  dst_transitions = [d.replace(hour=2) for d in tz._utc_transition_times if d.year >= 2000]
  \<close>
\<close>

definition replace_hour :: "int \<Rightarrow> int \<Rightarrow> int" where
  "replace_hour t h = (t div 1440) * 1440 + h * 60 + t mod 60"

definition year_of :: "int \<Rightarrow> int" where
  "year_of t = year (civil_from_days (t div 1440))"



definition dst_transitions :: "tzinfo \<Rightarrow> int list" where
  "dst_transitions tz =
     map (\<lambda>d. replace_hour d 2) (filter (\<lambda>d. 2000 \<le> year_of d) (map fst tz))"

text \<open>
  \<^verbatim>\<open>pd.to_datetime(date + ' ' + hour + ':' + minute)\<close> for a date given by its day number
  and a clock time given in numbers: a timestamp when the clock time exists, a parse
  error otherwise.
\<close>

definition to_datetime :: "int \<Rightarrow> int \<Rightarrow> int \<Rightarrow> error + int" where
  "to_datetime date hh mm =
     (if 0 \<le> hh \<and> hh \<le> 23 \<and> 0 \<le> mm \<and> mm \<le> 59 then Inr (date * 1440 + hh * 60 + mm)
      else Inl ValueError)"

section \<open>The adapter for quarter-hour positions (TenneT)\<close>

text \<open>
  A row of the file after the dates have been filled forward: the date (here its day
  number; the source compares the date strings for equality and parses them at the end)
  and the position of the quarter-hour in the day.
\<close>

type_synonym tennet_row = "int \<times> int"

text \<open>
  \<^verbatim>\<open>
  slicer = df[(df['date'] == date) & (df['pos'] >= first)].index
  df.loc[slicer, 'pos'] = df['pos'] + by
  \<close>
\<close>

definition shift_positions :: "int \<Rightarrow> int \<Rightarrow> int \<Rightarrow> tennet_row list \<Rightarrow> tennet_row list" where
  "shift_positions date first by df =
     map (\<lambda>(d, pos). if d = date \<and> first \<le> pos then (d, pos + by) else (d, pos)) df"

text \<open>
  The body of the loop that checks the rows for irregularities, for row \<open>i\<close>:
  \<^verbatim>\<open>
  if (df['pos'][i] == 92 and ((i == len(df.index) - 1) or (df['pos'][i + 1] == 1))):
      slicer = df[(df['date'] == df['date'][i]) & (df['pos'] >= 9)].index
      df.loc[slicer, 'pos'] = df['pos'] + 4
  if df['pos'][i] > 96:
      if df['pos'][i] == 100 and not (df['pos'] == 101).any():
          slicer = df[(df['date'] == df['date'][i]) & (df['pos'] >= 13)].index
          df.loc[slicer, 'pos'] = df['pos'] - 4
  \<close>
\<close>

definition spring_check :: "nat \<Rightarrow> tennet_row list \<Rightarrow> tennet_row list" where
  "spring_check i df =
     (if snd (df ! i) = 92 \<and> (i = length df - 1 \<or> snd (df ! Suc i) = 1)
      then shift_positions (fst (df ! i)) 9 4 df else df)"

definition autumn_check :: "nat \<Rightarrow> tennet_row list \<Rightarrow> tennet_row list" where
  "autumn_check i df =
     (if 96 < snd (df ! i) then
        (if snd (df ! i) = 100 \<and> 101 \<notin> set (map snd df)
         then shift_positions (fst (df ! i)) 13 (- 4) df else df)
      else df)"

definition check_row :: "tennet_row list \<Rightarrow> nat \<Rightarrow> tennet_row list" where
  "check_row df i = autumn_check i (spring_check i df)"

text \<open>\<^verbatim>\<open>for i in range(len(df.index)): ...\<close>\<close>

definition check_rows :: "tennet_row list \<Rightarrow> tennet_row list" where
  "check_rows df = foldl check_row df [0..<length df]"

text \<open>
  \<^verbatim>\<open>
  df['hour'] = (np.trunc((df['pos'] - 1) / 4)).astype(int).astype(str)
  df['minute'] = (((df['pos'] - 1) % 4) * 15).astype(int).astype(str)
  df['timestamp'] = pd.to_datetime(df['date'] + ' ' + df['hour'] + ':' + df['minute'],
                                   dayfirst=True)
  \<close>
  \<^verbatim>\<open>np.trunc\<close> rounds towards zero; \<^verbatim>\<open>%\<close> is the modulo of numpy, with the sign of the
  divisor.
\<close>

definition trunc_div :: "int \<Rightarrow> int \<Rightarrow> int" where
  "trunc_div a b = (if 0 \<le> a then a div b else - ((- a) div b))"

definition position_timestamp :: "tennet_row \<Rightarrow> error + int" where
  "position_timestamp row =
     to_datetime (fst row) (trunc_div (snd row - 1) 4) (((snd row - 1) mod 4) * 15)"

text \<open>
  The index \<^verbatim>\<open>read_tennet\<close> returns for the rows of a file: the checks, the clock
  times, then
  \<^verbatim>\<open>
  df.index = df.index.tz_localize('Europe/Berlin', ambiguous='infer')
  df.index = df.index.tz_convert(None)
  \<close>
\<close>

definition read_tennet :: "tzinfo \<Rightarrow> tennet_row list \<Rightarrow> error + int list" where
  "read_tennet berlin df =
     (case sequence (map position_timestamp (check_rows df)) of
        Inl e \<Rightarrow> Inl e
      | Inr timestamp \<Rightarrow> tz_localize berlin Infer timestamp)"

section \<open>Adapters that infer the repeated hour from the order of the rows\<close>






section \<open>The adapter for daily capacities (OPSD)\<close>

text \<open>
  \<^verbatim>\<open>DataFrame.reindex(index=new_index, method='ffill')\<close>: every label of the new index gets
  the row of the last label of the frame that is not after it, and a row of missing
  values when there is none. pandas refuses a frame whose own index holds a label twice
  (\<^verbatim>\<open>cannot reindex a non-unique index with a method or limit\<close>) and one whose index is
  neither increasing nor decreasing (\<^verbatim>\<open>index must be monotonic increasing or decreasing\<close>).
  On a decreasing index the row taken is still the one before the place of the label
  in the frame, that is the row of the last label in the frame's order that is not
  before it.
\<close>

definition pad :: "('c, 'v) frame \<Rightarrow> (int \<Rightarrow> bool) \<Rightarrow> 'v option list" where
  "pad f reached =
     (case filter (\<lambda>(l, r). reached l) (rows f) of
        [] \<Rightarrow> replicate (length (columns f)) None
      | r # rs \<Rightarrow> snd (last (r # rs)))"

definition reindex_ffill :: "('c, 'v) frame \<Rightarrow> int list \<Rightarrow> error + ('c, 'v) frame" where
  "reindex_ffill f new_index =
     (if \<not> distinct (index f) then Inl ValueError
      else if sorted (index f)
        then Inr \<lparr>columns = columns f, rows = map (\<lambda>t. (t, pad f (\<lambda>l. l \<le> t))) new_index\<rparr>
      else if sorted (rev (index f))
        then Inr \<lparr>columns = columns f, rows = map (\<lambda>t. (t, pad f (\<lambda>l. t \<le> l))) new_index\<rparr>
      else Inl ValueError)"

text \<open>\<^verbatim>\<open>df.index = new_index\<close>, for an index as long as the frame.\<close>

definition set_index :: "('c, 'v) frame \<Rightarrow> int list \<Rightarrow> ('c, 'v) frame" where
  "set_index f new_index = \<lparr>columns = columns f, rows = zip new_index (map snd (rows f))\<rparr>"

text \<open>
  \<^verbatim>\<open>df.resample('15min').ffill()\<close>. The frame is sorted by its index first. The new
  index runs from the first label to the last one, both rounded down to a quarter of an
  hour (bins closed and labelled on the left). When the index already has a step of 15
  minutes throughout (pandas infers a frequency from three labels on), the rows are kept
  and only relabelled; otherwise the frame is reindexed with \<^verbatim>\<open>method='pad'\<close>.
\<close>

definition floor15 :: "int \<Rightarrow> int" where
  "floor15 t = t - t mod 15"

definition inferred_freq_15min :: "int list \<Rightarrow> bool" where
  "inferred_freq_15min ax \<longleftrightarrow> 3 \<le> length ax \<and> list_all (\<lambda>d. d = 15) (diff ax)"

definition resample_15min_ffill :: "('c, 'v) frame \<Rightarrow> error + ('c, 'v) frame" where
  "resample_15min_ffill f =
     (let obj = \<lparr>columns = columns f, rows = sort_key fst (rows f)\<rparr>;
          ax = index obj
      in if ax = [] then Inr obj
         else let res_index = date_range (floor15 (hd ax)) (floor15 (last ax)) 15
              in if inferred_freq_15min ax then Inr (set_index obj res_index)
                 else reindex_ffill obj res_index)"

text \<open>\<^verbatim>\<open>Timestamp.replace(hour=h, minute=m)\<close>\<close>

definition replace_hour_minute :: "int \<Rightarrow> int \<Rightarrow> int \<Rightarrow> int" where
  "replace_hour_minute t h m = (t div 1440) * 1440 + h * 60 + m"

text \<open>
  \<^verbatim>\<open>read_opsd\<close>, from the frame \<open>df\<close> read from the file and cut down to the capacity
  columns, indexed by the parsed column \<^verbatim>\<open>day\<close>:
  \<^verbatim>\<open>
  last = pd.to_datetime([df.index[-1].replace(hour=23, minute=59)])
  until_last = df.index.append(last).rename('timestamp')
  df = df.reindex(index=until_last, method='ffill')
  df.index = df.index.tz_localize('Europe/Berlin')
  df.index = df.index.tz_convert(None)
  df = df.resample('15min').ffill()
  \<close>
  \<^verbatim>\<open>df.index[-1]\<close> of a frame without rows is an \<^verbatim>\<open>IndexError\<close>.
\<close>

definition read_opsd :: "tzinfo \<Rightarrow> ('c, 'v) frame \<Rightarrow> error + ('c, 'v) frame" where
  "read_opsd berlin df =
     (if index df = [] then Inl IndexError
      else let last_ts = replace_hour_minute (last (index df)) 23 59;
               until_last = index df @ [last_ts]
           in case reindex_ffill df until_last of
                Inl e \<Rightarrow> Inl e
              | Inr df \<Rightarrow>
                 (case tz_localize berlin Raise (index df) of
                    Inl e \<Rightarrow> Inl e
                  | Inr utc \<Rightarrow> resample_15min_ffill (set_index df utc)))"


section \<open>Definitions used to state the properties\<close>



text \<open>
  Two frames of one column that overlap in one label, and adapters that return the
  content of a file as it is (a file whose content is the frame parsed from it).
\<close>

definition frame_A :: "(string, int) frame" where
  "frame_A = \<lparr>columns = [''wind''], rows = [(0, [Some 1]), (60, [Some 2])]\<rparr>"

definition frame_B :: "(string, int) frame" where
  "frame_B = \<lparr>columns = [''wind''], rows = [(60, [Some 20]), (120, [Some 30])]\<rparr>"

definition content_adapters :: "(('c, 'v) frame, 'c, 'v) adapters" where
  "content_adapters =
     \<lparr>adapt_opsd = Inr, adapt_ceps = (\<lambda>v. Inr), adapt_entso_e_portal = Inr,
      adapt_energinet_dk = Inr, adapt_elia = (\<lambda>v. Inr), adapt_pse = (\<lambda>v. Inr),
      adapt_svenska_kraftnaet = (\<lambda>v. Inr), adapt_hertz = (\<lambda>v. Inr),
      adapt_amprion = (\<lambda>v. Inr), adapt_tennet = (\<lambda>v. Inr), adapt_transnetbw = (\<lambda>v. Inr)\<rparr>"



text \<open>
  An instant given by its calendar date and clock time, and the transitions of Central
  European (Summer) Time in 2014 to 2016, which \<^verbatim>\<open>Europe/Berlin\<close>,
  \<^verbatim>\<open>Europe/Brussels\<close> and \<^verbatim>\<open>Europe/Copenhagen\<close> share: the clocks change at 01:00 UTC
  of the last Sunday of March and of October. The table begins with the change back to
  CET of October 2013.
\<close>

definition instant :: "int \<Rightarrow> int \<Rightarrow> int \<Rightarrow> int \<Rightarrow> int \<Rightarrow> int" where
  "instant y m d hh mm = days_from_civil y m d * 1440 + hh * 60 + mm"

definition central_european :: tzinfo where
  "central_european =
     [(instant 2013 10 27 1 0, 60, False),
      (instant 2014 3 30 1 0, 120, True),
      (instant 2014 10 26 1 0, 60, False),
      (instant 2015 3 29 1 0, 120, True),
      (instant 2015 10 25 1 0, 60, False),
      (instant 2016 3 27 1 0, 120, True),
      (instant 2016 10 30 1 0, 60, False)]"

text \<open>An hourly frame of one column with a value at every label but one.\<close>

definition hourly :: "int \<Rightarrow> nat \<Rightarrow> (string, int) frame" where
  "hourly start n = \<lparr>columns = [''load''], rows = map (\<lambda>k. (start + 60 * int k, [Some (int k)])) [0..<n]\<rparr>"


text \<open>
  The state of the rows of one day during the loop of \<^verbatim>\<open>read_tennet\<close>: the frame has
  the length and the dates of \<open>df\<close>, and its 92 rows from row \<open>m\<close> on carry the date \<open>d\<close>
  and the positions \<open>pos 0\<close>, ..., \<open>pos 91\<close>.
\<close>

definition day_at :: "tennet_row list \<Rightarrow> nat \<Rightarrow> int \<Rightarrow> (nat \<Rightarrow> int) \<Rightarrow> tennet_row list \<Rightarrow> bool" where
  "day_at df m d pos s \<longleftrightarrow>
     length s = length df \<and> map fst s = map fst df \<and> (\<forall>k<92. s ! (m + k) = (d, pos k))"


text \<open>
  A file around 29 March 2015, when summer time began: the last four quarter-hours of
  the day before, the 92 positions of the day, and the first four of the next day.
\<close>

definition march_29 :: int where
  "march_29 = days_from_civil 2015 3 29"

definition spring_file :: "tennet_row list" where
  "spring_file =
     map (Pair (march_29 - 1)) [93..96] @ map (Pair march_29) [1..92] @ map (Pair (march_29 + 1)) [1..4]"





text \<open>
  A file of capacities reported on 1 and on 3 January 2015.
\<close>

definition capacities :: "(string, int) frame" where
  "capacities =
     \<lparr>columns = [''Solar''],
      rows = [(instant 2015 1 1 0 0, [Some 100]), (instant 2015 1 3 0 0, [Some 200])]\<rparr>"

section \<open>The aggregator\<close>















section \<open>The gap-exposing reindexer\<close>


lemma sorted_date_range:
  assumes "0 < step"
  shows "sorted (date_range a b step)" and "distinct (date_range a b step)"
proof -
  have m: "strict_mono (\<lambda>k. a + int k * step)"
    using assms by (simp add: strict_mono_def)
  show "sorted (date_range a b step)"
    unfolding date_range_def using assms
    by (simp only: sorted_map split: if_splits) (auto intro!: sorted_wrt_mono_rel[OF _ sorted_upt] simp: mult_right_mono simp del: upt_Suc)
  show "distinct (date_range a b step)"
    unfolding date_range_def using assms
    by (auto simp: distinct_map inj_on_def simp del: upt_Suc)
qed

lemma minutes_pos: "0 < minutes res"
  by (cases res) simp_all






lemma rows_rebuilt:
  "distinct (map fst xs) \<Longrightarrow>
   map (\<lambda>t. (t, case map_of xs t of Some r \<Rightarrow> r | None \<Rightarrow> dflt)) (map fst xs) = xs"
proof -
  assume d: "distinct (map fst xs)"
  have "(\<lambda>t. (t, case map_of xs t of Some r \<Rightarrow> r | None \<Rightarrow> dflt)) (fst x) = x" if "x \<in> set xs" for x
  proof -
    have "map_of xs (fst x) = Some (snd x)" using d that by (simp add: map_of_eq_Some_iff)
    then show ?thesis by simp
  qed
  then show ?thesis by (simp add: map_idI comp_def)
qed

text \<open>
  C8: reindexing is idempotent: a frame with at least one row whose index already is the
  grid from its first to its last label at the resolution is returned as it is.
\<close>

theorem expose_gaps_idempotent:
  assumes ne: "rows f \<noteq> []" and complete: "index f = no_gaps f res"
  shows "expose_gaps f res = Inr f"
proof -
  have "distinct (no_gaps f res)"
    unfolding no_gaps_def by (rule sorted_date_range(2)[OF minutes_pos])
  then have d: "distinct (index f)"
    by (simp only: complete[symmetric])
  have "map (\<lambda>t. (t, case map_of (rows f) t of Some r \<Rightarrow> r
                        | None \<Rightarrow> replicate (length (columns f)) None)) (index f) = rows f"
    using d unfolding index_def by (rule rows_rebuilt)
  then have "reindex f (index f) = Inr f"
    using d by (simp add: reindex_def)
  then have "reindex f (no_gaps f res) = Inr f"
    by (simp only: complete[symmetric])
  then show ?thesis
    using ne by (simp only: expose_gaps_def if_False)
qed

theorem expose_gaps_idempotent_witness:
  "expose_gaps (hourly 0 3) Res60min = Inr (hourly 0 3)"
proof -
  have h1: "rows (hourly 0 3) \<noteq> []" by code_simp
  have h2: "index (hourly 0 3) = no_gaps (hourly 0 3) Res60min" by code_simp
  show ?thesis by (rule expose_gaps_idempotent[OF h1 h2])
qed

section \<open>Containers outside the requested period\<close>

text \<open>
  C10: for a container whose directory name splits at underscores into at least two
  tokens that both read as dates, when the caller's start bound is later than the date
  of the second token, or the caller's end bound is earlier than the date of the first,
  the container contributes nothing, whatever files it holds (they are never looked
  at), and the loop gives the same result as without that container.
\<close>

theorem excluded_container_skipped:
  assumes "split_on CHR ''_'' name = t0 # t1 # toks"
    and "yaml_load_date t0 = Inr d0" and "yaml_load_date t1 = Inr d1"
    and "(\<exists>s. start_from_user = Some s \<and> date_less d1 s) \<or> (\<exists>e. end_from_user = Some e \<and> date_less e d0)"
  shows "read_container ad src var start_from_user end_from_user (name, files) = Inr None
       \<and> read_loop ad src var start_from_user end_from_user (pre @ (name, files) # post) acc =
         read_loop ad src var start_from_user end_from_user (pre @ post) acc"
proof -
  have p: "period_excluded start_from_user end_from_user name = Inr True"
    using assms
    by (cases start_from_user; cases end_from_user)
       (auto simp: period_excluded_def too_old_def too_recent_def split: bool.splits)
  then have c: "read_container ad src var start_from_user end_from_user (name, files) = Inr None"
    by (simp add: read_container_def)
  have "read_loop ad src var start_from_user end_from_user (pre @ (name, files) # post) acc =
         read_loop ad src var start_from_user end_from_user (pre @ post) acc"
    by (induction pre arbitrary: acc) (auto simp: c split: sum.splits option.splits)
  with c show ?thesis by simp
qed

theorem excluded_container_skipped_witness:
  "read_container content_adapters ''Elia'' ''wind'' (Some \<lparr>year = 2015, month = 1, day = 1\<rparr>) None
       (''2014-01-01_2014-12-31'', [(500, frame_A)]) = Inr None
   \<and> read_loop content_adapters ''Elia'' ''wind'' (Some \<lparr>year = 2015, month = 1, day = 1\<rparr>) None
       ([(''2015-01-01_2015-12-31'', [(300, frame_B)])] @ (''2014-01-01_2014-12-31'', [(500, frame_A)]) # [])
       empty_frame =
     read_loop content_adapters ''Elia'' ''wind'' (Some \<lparr>year = 2015, month = 1, day = 1\<rparr>) None
       ([(''2015-01-01_2015-12-31'', [(300, frame_B)])] @ []) empty_frame"
proof -
  have h1: "split_on CHR ''_'' ''2014-01-01_2014-12-31'' = ''2014-01-01'' # ''2014-12-31'' # []"
    by code_simp
  have h2: "yaml_load_date ''2014-01-01'' = Inr \<lparr>year = 2014, month = 1, day = 1\<rparr>" by code_simp
  have h3: "yaml_load_date ''2014-12-31'' = Inr \<lparr>year = 2014, month = 12, day = 31\<rparr>" by code_simp
  have "date_less \<lparr>year = 2014, month = 12, day = 31\<rparr> \<lparr>year = 2015, month = 1, day = 1\<rparr>"
    by code_simp
  then have h4: "(\<exists>s. Some \<lparr>year = 2015, month = 1, day = 1\<rparr> = Some s \<and>
        date_less \<lparr>year = 2014, month = 12, day = 31\<rparr> s) \<or>
      (\<exists>e. None = Some e \<and> date_less e \<lparr>year = 2014, month = 1, day = 1\<rparr>)"
    by simp
  show ?thesis by (rule excluded_container_skipped[OF h1 h2 h3 h4])
qed

section \<open>Unknown source names\<close>








section \<open>The range trimmer\<close>

lemma localize_candidate_valid:
  "localize_candidate tz l probe = Some v \<Longrightarrow> v + utcoffset tz v = l"
  by (auto simp: localize_candidate_def Let_def split: if_splits)

lemma possible_loc_dt_valid:
  "u \<in> set (possible_loc_dt tz l) \<Longrightarrow> u + utcoffset tz u = l"
  by (auto simp: possible_loc_dt_def List.map_filter_simps dest: localize_candidate_valid
      split: option.splits)

lemma choose_loc_dt_member:
  assumes "choose_loc_dt tz possible = Some u"
  shows "u \<in> set possible"
proof -
  define F where "F = filter (\<lambda>p. \<not> snd (transition_info tz p)) possible"
  have sub: "set F \<subseteq> set possible" by (auto simp: F_def)
  have mx: "xs \<noteq> [] \<Longrightarrow> Max (set xs) \<in> set xs" for xs :: "int list"
    by (intro Max_in) auto
  consider "possible = []" | p where "possible = [p]"
    | p q qs where "possible = p # q # qs" and "F = []"
    | p q qs x where "possible = p # q # qs" and "F = [x]"
    | p q qs x y ys where "possible = p # q # qs" and "F = x # y # ys"
    by (cases possible; cases "tl possible"; cases F; cases "tl F") auto
  then show ?thesis
  proof cases
    case 1
    then show ?thesis using assms by (simp add: choose_loc_dt_def)
  next
    case 2
    then show ?thesis using assms by (simp add: choose_loc_dt_def)
  next
    case 3
    then have "choose_loc_dt tz possible = Some (Max (set possible))"
      unfolding choose_loc_dt_def Let_def F_def[symmetric] by (simp del: filter.simps)
    then show ?thesis using assms mx[of possible] 3 by auto
  next
    case 4
    then have "choose_loc_dt tz possible = Some x"
      unfolding choose_loc_dt_def Let_def F_def[symmetric] by (simp del: filter.simps)
    then show ?thesis using assms sub 4 by auto
  next
    case 5
    then have "choose_loc_dt tz possible = Some (Max (set F))"
      unfolding choose_loc_dt_def Let_def F_def[symmetric] by (simp del: filter.simps)
    then show ?thesis using assms sub mx[of F] 5 by auto
  qed
qed

lemma pytz_localize_valid:
  assumes "pytz_localize tz l = Inr u" and "possible_loc_dt tz l \<noteq> []"
  shows "u + utcoffset tz u = l"
proof -
  obtain p ps where "possible_loc_dt tz l = p # ps" using assms(2) by (cases "possible_loc_dt tz l") auto
  then have "choose_loc_dt tz (possible_loc_dt tz l) \<noteq> None"
    by (auto simp: choose_loc_dt_def Let_def split: list.splits)
  then have "choose_loc_dt tz (possible_loc_dt tz l) = Some u"
    using assms(1) by (auto simp: pytz_localize_def split: option.splits)
  then show ?thesis by (intro possible_loc_dt_valid choose_loc_dt_member)
qed

text \<open>
  C5: when both bounds convert and local midnight of a given bound exists in the zone,
  the cut keeps the columns and exactly the rows whose label lies between the converted
  bounds, both included; an absent bound leaves its side open; the start bound is the
  UTC instant whose local time is midnight of the start date, the end bound the UTC
  instant of local midnight of the end date minus one step of the resolution. At
  \<^verbatim>\<open>60min\<close> with end bound 2015-01-02 the converted bound is 2015-01-01 22:00 UTC,
  which is 23:00 local time, and an hourly frame running to 2015-01-02 01:00 UTC is cut to
  end there: the row of 23:00 UTC (local 2015-01-02 00:00) is left out.
\<close>

theorem cut_off_bounds:
  assumes s: "start_utc brussels start_from_user = Inr s'"
    and e: "end_utc brussels res end_from_user = Inr e'"
    and ps: "\<forall>d. start_from_user = Some d \<longrightarrow> possible_loc_dt brussels (midnight d) \<noteq> []"
    and pe: "\<forall>d. end_from_user = Some d \<longrightarrow> possible_loc_dt brussels (midnight d) \<noteq> []"
  shows "cut_off brussels res start_from_user end_from_user data_set = Inr (loc_slice data_set s' e')
     \<and> columns (loc_slice data_set s' e') = columns data_set
     \<and> rows (loc_slice data_set s' e') =
         filter (\<lambda>(t, r). (\<forall>s. s' = Some s \<longrightarrow> s \<le> t) \<and> (\<forall>e. e' = Some e \<longrightarrow> t \<le> e)) (rows data_set)
     \<and> (start_from_user = None \<longrightarrow> s' = None)
     \<and> (end_from_user = None \<longrightarrow> e' = None)
     \<and> (\<forall>d. start_from_user = Some d \<longrightarrow>
           (\<exists>u. s' = Some u \<and> u + utcoffset brussels u = midnight d))
     \<and> (\<forall>d. end_from_user = Some d \<longrightarrow>
           (\<exists>u. e' = Some (u - minutes res) \<and> u + utcoffset brussels u = midnight d))
     \<and> end_utc central_european Res60min (Some \<lparr>year = 2015, month = 1, day = 2\<rparr>) =
           Inr (Some (instant 2015 1 1 22 0))
     \<and> instant 2015 1 1 22 0 + utcoffset central_european (instant 2015 1 1 22 0) =
           instant 2015 1 1 23 0
     \<and> cut_off central_european Res60min None (Some \<lparr>year = 2015, month = 1, day = 2\<rparr>)
           (hourly (instant 2015 1 1 20 0) 6) = Inr (hourly (instant 2015 1 1 20 0) 3)
     \<and> last (index (hourly (instant 2015 1 1 20 0) 3)) = instant 2015 1 1 22 0"
proof (intro conjI allI impI)
  show "cut_off brussels res start_from_user end_from_user data_set = Inr (loc_slice data_set s' e')"
    using s e by (simp add: cut_off_def)
  show "columns (loc_slice data_set s' e') = columns data_set" by (simp add: loc_slice_def)
  show "rows (loc_slice data_set s' e') =
         filter (\<lambda>(t, r). (\<forall>s. s' = Some s \<longrightarrow> s \<le> t) \<and> (\<forall>e. e' = Some e \<longrightarrow> t \<le> e)) (rows data_set)"
    by (cases s'; cases e') (simp_all add: loc_slice_def)
  show "s' = None" if "start_from_user = None" using s that by (simp add: start_utc_def)
  show "e' = None" if "end_from_user = None" using e that by (simp add: end_utc_def)
  show "\<exists>u. s' = Some u \<and> u + utcoffset brussels u = midnight d" if "start_from_user = Some d" for d
  proof -
    from s that obtain u where u: "pytz_localize brussels (midnight d) = Inr u" "s' = Some u"
      by (auto simp: start_utc_def split: sum.splits)
    from ps that have "possible_loc_dt brussels (midnight d) \<noteq> []" by simp
    from pytz_localize_valid[OF u(1) this] u(2) show ?thesis by simp
  qed
  show "\<exists>u. e' = Some (u - minutes res) \<and> u + utcoffset brussels u = midnight d" if "end_from_user = Some d" for d
  proof -
    from e that obtain u where u: "pytz_localize brussels (midnight d) = Inr u" "e' = Some (u - minutes res)"
      by (auto simp: end_utc_def split: sum.splits)
    from pe that have "possible_loc_dt brussels (midnight d) \<noteq> []" by simp
    from pytz_localize_valid[OF u(1) this] u(2) show ?thesis by simp
  qed
  show "end_utc central_european Res60min (Some \<lparr>year = 2015, month = 1, day = 2\<rparr>) =
           Inr (Some (instant 2015 1 1 22 0))" by code_simp
  show "instant 2015 1 1 22 0 + utcoffset central_european (instant 2015 1 1 22 0) =
           instant 2015 1 1 23 0" by code_simp
  show "cut_off central_european Res60min None (Some \<lparr>year = 2015, month = 1, day = 2\<rparr>)
           (hourly (instant 2015 1 1 20 0) 6) = Inr (hourly (instant 2015 1 1 20 0) 3)" by code_simp
  show "last (index (hourly (instant 2015 1 1 20 0) 3)) = instant 2015 1 1 22 0" by code_simp
qed

theorem cut_off_bounds_witness:
  "\<exists>g. cut_off central_european Res60min (Some \<lparr>year = 2015, month = 1, day = 1\<rparr>)
         (Some \<lparr>year = 2015, month = 1, day = 2\<rparr>) (hourly (instant 2014 12 31 20 0) 30) = Inr g
      \<and> length (rows g) = 24
      \<and> hd (index g) = instant 2014 12 31 23 0
      \<and> last (index g) = instant 2015 1 1 22 0"
proof -
  have s: "start_utc central_european (Some \<lparr>year = 2015, month = 1, day = 1\<rparr>) =
      Inr (Some (instant 2014 12 31 23 0))" by code_simp
  have e: "end_utc central_european Res60min (Some \<lparr>year = 2015, month = 1, day = 2\<rparr>) =
      Inr (Some (instant 2015 1 1 22 0))" by code_simp
  have p1: "possible_loc_dt central_european (midnight \<lparr>year = 2015, month = 1, day = 1\<rparr>) \<noteq> []"
    by code_simp
  have p2: "possible_loc_dt central_european (midnight \<lparr>year = 2015, month = 1, day = 2\<rparr>) \<noteq> []"
    by code_simp
  have ps: "\<forall>d. Some \<lparr>year = 2015, month = 1, day = 1\<rparr> = Some d \<longrightarrow>
      possible_loc_dt central_european (midnight d) \<noteq> []" using p1 by simp
  have pe: "\<forall>d. Some \<lparr>year = 2015, month = 1, day = 2\<rparr> = Some d \<longrightarrow>
      possible_loc_dt central_european (midnight d) \<noteq> []" using p2 by simp
  note t = cut_off_bounds[OF s e ps pe, where data_set = "hourly (instant 2014 12 31 20 0) 30"]
  let ?g = "loc_slice (hourly (instant 2014 12 31 20 0) 30) (Some (instant 2014 12 31 23 0))
      (Some (instant 2015 1 1 22 0))"
  from t have c: "cut_off central_european Res60min (Some \<lparr>year = 2015, month = 1, day = 1\<rparr>)
         (Some \<lparr>year = 2015, month = 1, day = 2\<rparr>) (hourly (instant 2014 12 31 20 0) 30) = Inr ?g"
    by (rule conjunct1)
  have "length (rows ?g) = 24" by code_simp
  moreover have "hd (index ?g) = instant 2014 12 31 23 0" by code_simp
  moreover have "last (index ?g) = instant 2015 1 1 22 0" by code_simp
  ultimately show ?thesis using c by blast
qed

section \<open>The position adapter on the day summer time begins\<close>

lemma length_shift_positions [simp]: "length (shift_positions d f b df) = length df"
  by (simp add: shift_positions_def)

lemma fst_shift_positions [simp]: "map fst (shift_positions d f b df) = map fst df"
  by (auto simp: shift_positions_def split: prod.splits)

lemma nth_shift_positions:
  "j < length df \<Longrightarrow> shift_positions d f b df ! j =
     (if fst (df ! j) = d \<and> f \<le> snd (df ! j) then (fst (df ! j), snd (df ! j) + b) else df ! j)"
  by (auto simp: shift_positions_def split: prod.splits)

lemma length_check_row [simp]: "length (check_row df i) = length df"
  by (simp add: check_row_def spring_check_def autumn_check_def)

lemma fst_check_row [simp]: "map fst (check_row df i) = map fst df"
  by (simp add: check_row_def spring_check_def autumn_check_def)

lemma fst_nth_eq: "map fst s = map fst df \<Longrightarrow> j < length df \<Longrightarrow> fst (s ! j) = fst (df ! j)"
  by (metis length_map nth_map)

lemma spring_check_other:
  assumes "i < length df" "j < length df" "fst (df ! j) \<noteq> fst (df ! i) \<or> snd (df ! j) < 9"
  shows "spring_check i df ! j = df ! j"
  using assms by (auto simp: spring_check_def nth_shift_positions)

lemma autumn_check_other:
  assumes "i < length df" "j < length df" "fst (df ! j) \<noteq> fst (df ! i) \<or> snd (df ! j) < 13"
  shows "autumn_check i df ! j = df ! j"
  using assms by (auto simp: autumn_check_def nth_shift_positions)

lemma check_row_other:
  assumes i: "i < length df" and j: "j < length df"
    and o: "fst (df ! j) \<noteq> fst (df ! i) \<or> snd (df ! j) < 9"
  shows "check_row df i ! j = df ! j"
proof -
  let ?s = "spring_check i df"
  have l: "length ?s = length df" by (simp add: spring_check_def)
  have f: "map fst ?s = map fst df" by (simp add: spring_check_def)
  have sj: "?s ! j = df ! j" by (rule spring_check_other[OF i j o])
  have "fst (?s ! i) = fst (df ! i)" by (rule fst_nth_eq[OF f i])
  then have "fst (?s ! j) \<noteq> fst (?s ! i) \<or> snd (?s ! j) < 13" using o sj by auto
  then have "autumn_check i ?s ! j = ?s ! j"
    using i j l by (intro autumn_check_other) simp_all
  then show ?thesis using sj by (simp add: check_row_def)
qed

lemma day_block_facts:
  assumes df: "df = pre @ map (Pair d) [1..92] @ post"
    and pre: "d \<notin> fst ` set pre" and post: "d \<notin> fst ` set post"
  shows "length df = length pre + 92 + length post"
    and "\<And>j. j < length pre \<Longrightarrow> fst (df ! j) \<noteq> d"
    and "\<And>j. length pre + 92 \<le> j \<Longrightarrow> j < length df \<Longrightarrow> fst (df ! j) \<noteq> d"
    and "\<And>k. k < 92 \<Longrightarrow> df ! (length pre + k) = (d, int k + 1)"
    and "post \<noteq> [] \<Longrightarrow> df ! (length pre + 92) = hd post"
proof -
  have l92: "length (map (Pair d) [1..92]) = 92" by simp
  show len: "length df = length pre + 92 + length post" by (simp add: df)
  show "fst (df ! j) \<noteq> d" if "j < length pre" for j
  proof -
    have "df ! j = pre ! j" using that by (simp add: df nth_append)
    moreover have "pre ! j \<in> set pre" using that by simp
    ultimately show ?thesis using pre by force
  qed
  show "fst (df ! j) \<noteq> d" if "length pre + 92 \<le> j" "j < length df" for j
  proof -
    have "df ! j = (map (Pair d) [1..92] @ post) ! (j - length pre)"
      using that by (simp add: df nth_append)
    also have "\<dots> = post ! (j - length pre - 92)"
    proof -
      have n: "\<not> j - length pre < 92" using that by arith
      show ?thesis by (simp only: nth_append l92 n if_False)
    qed
    finally have "df ! j = post ! (j - length pre - 92)" .
    moreover have "post ! (j - length pre - 92) \<in> set post" using that len by simp
    ultimately show ?thesis using post by force
  qed
  show "df ! (length pre + k) = (d, int k + 1)" if "k < 92" for k
    using that by (simp add: df nth_append)
  show "df ! (length pre + 92) = hd post" if "post \<noteq> []"
    using that by (simp add: df nth_append hd_conv_nth)
qed

lemma check_row_outside_day:
  assumes df: "df = pre @ map (Pair d) [1..92] @ post"
    and pre: "d \<notin> fst ` set pre" and post: "d \<notin> fst ` set post"
    and inv: "day_at df (length pre) d pos s"
    and i: "i < length pre \<or> length pre + 92 \<le> i" "i < length df"
  shows "day_at df (length pre) d pos (check_row s i)"
proof -
  note f = day_block_facts[OF df pre post]
  from inv have l: "length s = length df" and fs: "map fst s = map fst df"
    and b: "\<And>k. k < 92 \<Longrightarrow> s ! (length pre + k) = (d, pos k)"
    by (auto simp: day_at_def)
  have di: "fst (s ! i) \<noteq> d"
    using i f(2)[of i] f(3)[of i] fst_nth_eq[OF fs i(2)] by auto
  have "check_row s i ! (length pre + k) = (d, pos k)" if "k < 92" for k
  proof -
    have j: "length pre + k < length s" using that f(1) l by simp
    have "fst (s ! (length pre + k)) \<noteq> fst (s ! i)" using b[OF that] di by simp
    then have "check_row s i ! (length pre + k) = s ! (length pre + k)"
      using i(2) j l by (intro check_row_other) simp_all
    then show ?thesis using b[OF that] by simp
  qed
  then show ?thesis using l fs by (simp add: day_at_def)
qed

lemma check_row_keeps_small:
  assumes "i < length s" "j < length s" "snd (s ! j) = 1"
  shows "snd (check_row s i ! j) = 1"
  using check_row_other[OF assms(1,2)] assms(3) by simp

lemma check_row_inside_day:
  assumes df: "df = pre @ map (Pair d) [1..92] @ post"
    and inv: "day_at df (length pre) d (\<lambda>k. int k + 1) s"
    and i: "length pre \<le> i" "i < length pre + 91"
  shows "check_row s i = s"
proof -
  obtain k where k: "i = length pre + k" "k < 91" using i by (metis le_Suc_ex nat_add_left_cancel_less)
  from inv have "s ! i = (d, int k + 1)" using k by (simp add: day_at_def)
  then have p: "snd (s ! i) = int k + 1" by simp
  have "spring_check i s = s" using p k(2) by (simp add: spring_check_def)
  moreover have "autumn_check i s = s" using p k(2) by (simp add: autumn_check_def)
  ultimately show ?thesis by (simp add: check_row_def)
qed

lemma check_row_last_of_day:
  assumes df: "df = pre @ map (Pair d) [1..92] @ post"
    and pre: "d \<notin> fst ` set pre" and post: "d \<notin> fst ` set post"
    and inv: "day_at df (length pre) d (\<lambda>k. int k + 1) s"
    and nxt: "post = [] \<or> snd (s ! (length pre + 92)) = 1"
  shows "day_at df (length pre) d (\<lambda>k. if k < 8 then int k + 1 else int k + 5)
           (check_row s (length pre + 91))"
proof -
  let ?i = "length pre + 91"
  note f = day_block_facts[OF df pre post]
  from inv have l: "length s = length df" and fs: "map fst s = map fst df"
    and b: "\<And>k. k < 92 \<Longrightarrow> s ! (length pre + k) = (d, int k + 1)"
    by (auto simp: day_at_def)
  have si: "s ! ?i = (d, 92)" using b[of 91] by simp
  have c: "?i = length s - 1 \<or> snd (s ! Suc ?i) = 1"
    using nxt l f(1) by (cases "post = []") (auto simp: add.commute)
  let ?s1 = "shift_positions d 9 4 s"
  have s1: "spring_check ?i s = ?s1" using si c by (simp add: spring_check_def)
  have il: "?i < length s" using l f(1) by simp
  have "?s1 ! ?i = (d, 96)" using si il by (simp add: nth_shift_positions)
  then have a: "autumn_check ?i ?s1 = ?s1" by (simp add: autumn_check_def)
  have "?s1 ! (length pre + k) = (d, if k < 8 then int k + 1 else int k + 5)" if "k < 92" for k
  proof -
    have "length pre + k < length s" using that l f(1) by simp
    then show ?thesis using b[OF that] by (simp add: nth_shift_positions)
  qed
  then show ?thesis using l fs s1 a by (simp add: day_at_def check_row_def)
qed

lemma foldl_check_row_length [simp]: "length (foldl check_row s js) = length s"
  by (induction js arbitrary: s) simp_all

lemma foldl_check_row_keeps_one:
  assumes "j < length s" "snd (s ! j) = 1" "\<forall>i\<in>set js. i < length s"
  shows "snd (foldl check_row s js ! j) = 1"
  using assms
proof (induction js arbitrary: s)
  case Nil
  then show ?case by simp
next
  case (Cons i js)
  have "snd (check_row s i ! j) = 1"
    using Cons.prems by (intro check_row_keeps_small) simp_all
  then show ?case using Cons.prems by (simp add: Cons.IH)
qed

lemma foldl_check_row_outside_day:
  assumes df: "df = pre @ map (Pair d) [1..92] @ post"
    and pre: "d \<notin> fst ` set pre" and post: "d \<notin> fst ` set post"
    and inv: "day_at df (length pre) d pos s"
    and js: "\<forall>i\<in>set js. (i < length pre \<or> length pre + 92 \<le> i) \<and> i < length df"
  shows "day_at df (length pre) d pos (foldl check_row s js)"
  using inv js
proof (induction js arbitrary: s)
  case Nil
  then show ?case by simp
next
  case (Cons i js)
  have "day_at df (length pre) d pos (check_row s i)"
    using Cons.prems by (intro check_row_outside_day[OF df pre post]) simp_all
  then show ?case using Cons.prems by (simp add: Cons.IH)
qed

lemma foldl_check_row_inside_day:
  assumes df: "df = pre @ map (Pair d) [1..92] @ post"
    and inv: "day_at df (length pre) d (\<lambda>k. int k + 1) s"
    and js: "\<forall>i\<in>set js. length pre \<le> i \<and> i < length pre + 91"
  shows "foldl check_row s js = s"
  using js
proof (induction js)
  case Nil
  then show ?case by simp
next
  case (Cons i js)
  have "check_row s i = s"
    using Cons.prems by (intro check_row_inside_day[OF df inv]) simp_all
  then show ?case using Cons by simp
qed

lemma check_rows_spring_day:
  assumes df: "df = pre @ map (Pair d) [1..92] @ post"
    and pre: "d \<notin> fst ` set pre" and post: "d \<notin> fst ` set post"
    and nxt: "post = [] \<or> snd (hd post) = 1"
  shows "day_at df (length pre) d (\<lambda>k. if k < 8 then int k + 1 else int k + 5) (check_rows df)"
proof -
  let ?m = "length pre"
  note f = day_block_facts[OF df pre post]
  have split: "[0..<length df] = [0..<?m] @ [?m..<?m + 91] @ [?m + 91] @ [?m + 92..<length df]"
  proof -
    have a: "[0..<?m + (92 + length post)] = [0..<?m] @ [?m..<?m + (92 + length post)]"
      by (rule upt_add_eq_append) simp
    have b: "[?m..<?m + 91 + (1 + length post)] = [?m..<?m + 91] @ [?m + 91..<?m + 91 + (1 + length post)]"
      by (rule upt_add_eq_append) simp
    have c: "[?m + 91..<?m + 91 + (1 + length post)] = (?m + 91) # [Suc (?m + 91)..<?m + 91 + (1 + length post)]"
      by (rule upt_conv_Cons) simp
    have e1: "length df = ?m + (92 + length post)" using f(1) by simp
    have e2: "?m + (92 + length post) = ?m + 91 + (1 + length post)" by simp
    have e3: "Suc (?m + 91) = ?m + 92" by simp
    have "[0..<length df] = [0..<?m] @ [?m..<?m + 91] @ (?m + 91) # [?m + 92..<?m + 91 + (1 + length post)]"
      unfolding e1 a unfolding e2 b c e3 ..
    then show ?thesis unfolding e1 e2 by simp
  qed
  have i0: "day_at df ?m d (\<lambda>k. int k + 1) df" using f(4) by (simp add: day_at_def)
  define s1 where "s1 = foldl check_row df [0..<?m]"
  have i1: "day_at df ?m d (\<lambda>k. int k + 1) s1"
    unfolding s1_def using f(1) by (intro foldl_check_row_outside_day[OF df pre post i0]) auto
  have n1: "post = [] \<or> snd (s1 ! (?m + 92)) = 1"
  proof (cases "post = []")
    case False
    then have "snd (df ! (?m + 92)) = 1" using nxt f(5) by simp
    moreover have "?m + 92 < length df" using False f(1) by (cases post) auto
    ultimately have "snd (foldl check_row df [0..<?m] ! (?m + 92)) = 1"
      by (intro foldl_check_row_keeps_one) auto
    then show ?thesis by (simp add: s1_def)
  qed simp
  have s2: "foldl check_row s1 [?m..<?m + 91] = s1"
    by (intro foldl_check_row_inside_day[OF df i1]) auto
  define s3 where "s3 = check_row s1 (?m + 91)"
  have i3: "day_at df ?m d (\<lambda>k. if k < 8 then int k + 1 else int k + 5) s3"
    unfolding s3_def by (rule check_row_last_of_day[OF df pre post i1 n1])
  have "day_at df ?m d (\<lambda>k. if k < 8 then int k + 1 else int k + 5)
      (foldl check_row s3 [?m + 92..<length df])"
    by (intro foldl_check_row_outside_day[OF df pre post i3]) auto
  moreover have "check_rows df = foldl check_row s3 [?m + 92..<length df]"
    unfolding check_rows_def split by (simp only: foldl_append s1_def[symmetric] s2 s3_def foldl.simps)
  ultimately show ?thesis by simp
qed

lemma shifted_positions_nth:
  assumes "k < 92"
  shows "([1..8] @ [13..96]) ! k = (if k < 8 then int k + 1 else int k + 5)"
proof (cases "k < 8")
  case True
  have l: "length [1..8::int] = 8" by (simp only: length_upto)
  have "([1..8] @ [13..96]) ! k = [1..8] ! k" using True by (simp only: nth_append l if_True)
  also have "\<dots> = 1 + int k" using True by (intro nth_upto) simp
  finally show ?thesis using True by simp
next
  case False
  have l: "length [1..8::int] = 8" by (simp only: length_upto)
  have "([1..8] @ [13..96]) ! k = [13..96] ! (k - 8)" using False by (simp only: nth_append l if_False)
  also have "\<dots> = 13 + int (k - 8)" using False assms by (intro nth_upto) simp
  finally show ?thesis using False by simp
qed

lemma length_shifted_positions: "length ([1..8] @ [13..96::int]) = 92"
  by (simp only: length_append length_upto)

lemma spring_day_rows:
  assumes "day_at df m d (\<lambda>k. if k < 8 then int k + 1 else int k + 5) s"
    and "m + 92 \<le> length df"
  shows "take 92 (drop m s) = map (Pair d) ([1..8] @ [13..96])"
proof (rule nth_equalityI)
  from assms have l: "length s = length df"
    and b: "\<And>k. k < 92 \<Longrightarrow> s ! (m + k) = (d, if k < 8 then int k + 1 else int k + 5)"
    by (auto simp: day_at_def)
  show "length (take 92 (drop m s)) = length (map (Pair d) ([1..8] @ [13..96]))"
    using l assms(2) by (simp only: length_map length_shifted_positions length_take length_drop)
  show "take 92 (drop m s) ! k = map (Pair d) ([1..8] @ [13..96]) ! k"
    if "k < length (take 92 (drop m s))" for k
  proof -
    have k: "k < 92" using that by simp
    have "take 92 (drop m s) ! k = s ! (m + k)" using k l assms(2) by simp
    also have "\<dots> = (d, ([1..8] @ [13..96]) ! k)" using b[OF k] shifted_positions_nth[OF k] by simp
    also have "\<dots> = map (Pair d) ([1..8] @ [13..96]) ! k"
      using k by (simp only: nth_map length_shifted_positions)
    finally show ?thesis .
  qed
qed

lemma position_timestamp_regular:
  assumes "1 \<le> p" "p \<le> 96"
  shows "position_timestamp (d, p) = Inr (d * 1440 + 15 * (p - 1))"
proof -
  have t: "trunc_div (p - 1) 4 = (p - 1) div 4" using assms by (simp add: trunc_div_def)
  have "(p - 1) div 4 * 60 + (p - 1) mod 4 * 15 = 15 * (p - 1)" by presburger
  moreover have "0 \<le> (p - 1) div 4" "(p - 1) div 4 \<le> 23" "0 \<le> (p - 1) mod 4 * 15" "(p - 1) mod 4 * 15 \<le> 59"
    using assms by presburger+
  ultimately show ?thesis by (simp add: position_timestamp_def to_datetime_def t)
qed

lemma sequence_length: "sequence xs = Inr ys \<Longrightarrow> length ys = length xs"
  by (induction xs arbitrary: ys) (auto split: sum.splits)

lemma sequence_nth: "sequence xs = Inr ys \<Longrightarrow> i < length xs \<Longrightarrow> xs ! i = Inr (ys ! i)"
proof (induction xs arbitrary: ys i)
  case Nil
  then show ?case by simp
next
  case (Cons x xs)
  then show ?case by (cases i) (auto split: sum.splits)
qed

lemma infer_group_length: "infer_group grp = Inr hs \<Longrightarrow> length hs = length grp"
  by (auto simp: infer_group_def Let_def split: if_splits)

lemma flush_group_length: "flush_group grp = Inr hs \<Longrightarrow> length hs = length grp"
  by (auto simp: flush_group_def infer_group_length split: if_splits sum.splits)

lemma infer_dst_hours_length:
  "infer_dst_hours tz grp ls = Inr ds \<Longrightarrow> length ds = length grp + length ls"
proof (induction ls arbitrary: grp ds)
  case Nil
  then show ?case by (simp add: flush_group_length)
next
  case (Cons l ls)
  show ?case
  proof (cases "is_ambiguous tz l")
    case True
    then obtain a b where ab: "result_a tz l = Some a" "result_b tz l = Some b" "a \<noteq> b"
      by (auto simp: is_ambiguous_def split: option.splits)
    then have "infer_dst_hours tz (grp @ [(a, b)]) ls = Inr ds" using Cons.prems by simp
    from Cons.IH[OF this] show ?thesis by simp
  next
    case False
    then have "infer_dst_hours tz grp (l # ls) =
      (case flush_group grp of Inl e \<Rightarrow> Inl e
       | Inr hs \<Rightarrow> (case infer_dst_hours tz [] ls of Inl e \<Rightarrow> Inl e | Inr ds \<Rightarrow> Inr (hs @ None # ds)))"
      by (auto simp: is_ambiguous_def split: option.splits)
    with Cons.prems obtain hs ds' where
      h: "flush_group grp = Inr hs" "infer_dst_hours tz [] ls = Inr ds'" "ds = hs @ None # ds'"
      by (auto split: sum.splits)
    from Cons.IH[OF h(2)] flush_group_length[OF h(1)] h(3) show ?thesis by simp
  qed
qed

lemma resolve_unambiguous: "resolve tz l None = Inr u \<Longrightarrow> resolve tz l hint = Inr u"
  by (auto simp: resolve_def split: option.splits if_splits)

lemma tz_localize_infer_length:
  assumes "tz_localize tz Infer vals = Inr us"
  shows "length us = length vals"
proof -
  from assms obtain ds where d: "infer_dst_hours tz [] vals = Inr ds"
    and s: "sequence (map (\<lambda>(l, h). resolve tz l h) (zip vals ds)) = Inr us"
    by (auto simp: tz_localize_def split: sum.splits)
  from infer_dst_hours_length[OF d] sequence_length[OF s] show ?thesis by simp
qed

lemma tz_localize_infer_unambiguous:
  assumes "tz_localize tz Infer vals = Inr us" and i: "i < length vals"
    and r: "resolve tz (vals ! i) None = Inr u"
  shows "us ! i = u"
proof -
  from assms obtain ds where d: "infer_dst_hours tz [] vals = Inr ds"
    and s: "sequence (map (\<lambda>(l, h). resolve tz l h) (zip vals ds)) = Inr us"
    by (auto simp: tz_localize_def split: sum.splits)
  have l: "length ds = length vals" using infer_dst_hours_length[OF d] by simp
  have "map (\<lambda>(l, h). resolve tz l h) (zip vals ds) ! i = Inr (us ! i)"
    using i l by (intro sequence_nth[OF s]) simp
  then have "resolve tz (vals ! i) (ds ! i) = Inr (us ! i)" using i l by simp
  then show ?thesis using resolve_unambiguous[OF r, of "ds ! i"] by simp
qed


lemma ce_table: "central_european =
  [(23047260, 60, False), (23269020, 120, True), (23571420, 60, False),
   (23793180, 120, True), (24095580, 60, False), (24317340, 120, True),
   (24629820, 60, False)]"
  by code_simp

lemma d29: "days_from_civil 2015 3 29 * 1440 = 23793120" by code_simp

lemma spring_before:
  "23793120 \<le> l \<and> l < 23793120 + 120 \<longrightarrow> resolve central_european l None = Inr (l - 60)"
  by (simp add: resolve_def result_a_def result_b_def localize_candidate_def utcoffset_def ce_table DAY_def Let_def)

lemma spring_after:
  "23793120 + 180 \<le> l \<and> l < 23793120 + 1440 \<longrightarrow> resolve central_european l None = Inr (l - 60 - 60)"
  by (simp add: resolve_def result_a_def result_b_def localize_candidate_def utcoffset_def ce_table DAY_def Let_def)

text \<open>
  C1: in a file whose rows of day \<open>d\<close> are the positions 1 to 92 in order, followed by
  the end of the file or by a row of position 1, with no other row of that date, the
  loop shifts exactly the positions from 9 on by 4, so the day reads 1..8, 13..96; the
  clock times computed from these are 92 valid timestamps, the quarter-hours 0..7 and
  12..95 of the day; and when the local times of the day before 02:00 have the UTC
  offset \<open>off\<close> and those from 03:00 on the offset \<open>off + 60\<close> (the clocks go forward
  at 02:00), the index the adapter returns holds for the day 92 UTC instants, each 15
  minutes after the one before, starting at local midnight: the rows after the jump are
  one hour later on the clock and contiguous in time.
\<close>

theorem read_tennet_spring_forward:
  assumes df: "df = pre @ map (Pair d) [1..92] @ post"
    and other: "d \<notin> fst ` set pre \<and> d \<notin> fst ` set post"
    and nxt: "post = [] \<or> snd (hd post) = 1"
    and before: "\<forall>l. d * 1440 \<le> l \<and> l < d * 1440 + 120 \<longrightarrow> resolve berlin l None = Inr (l - off)"
    and after: "\<forall>l. d * 1440 + 180 \<le> l \<and> l < d * 1440 + 1440 \<longrightarrow>
                  resolve berlin l None = Inr (l - (off + 60))"
    and ok: "read_tennet berlin df = Inr utc"
  shows "take 92 (drop (length pre) (check_rows df)) = map (Pair d) ([1..8] @ [13..96])
     \<and> map position_timestamp (map (Pair d) ([1..8] @ [13..96])) =
         map (\<lambda>q. Inr (d * 1440 + 15 * q)) ([0..7] @ [12..95])
     \<and> length utc = length df
     \<and> take 92 (drop (length pre) utc) = map (\<lambda>k. d * 1440 - off + 15 * int k) [0..<92]"
proof -
  let ?m = "length pre"
  let ?pos = "\<lambda>k. if k < 8 then int k + 1 else int k + 5"
  note f = day_block_facts[OF df other[THEN conjunct1] other[THEN conjunct2]]
  have inv: "day_at df ?m d ?pos (check_rows df)"
    by (rule check_rows_spring_day[OF df other[THEN conjunct1] other[THEN conjunct2] nxt])
  have m92: "?m + 92 \<le> length df" using f(1) by simp
  have c1: "take 92 (drop ?m (check_rows df)) = map (Pair d) ([1..8] @ [13..96])"
    by (rule spring_day_rows[OF inv m92])
  have c2: "map position_timestamp (map (Pair d) ([1..8] @ [13..96])) =
         map (\<lambda>q. Inr (d * 1440 + 15 * q)) ([0..7] @ [12..95])"
  proof -
    have "map position_timestamp (map (Pair d) [1..8]) = map (\<lambda>q. Inr (d * 1440 + 15 * q)) [0..7]"
      by (simp add: position_timestamp_regular upto_rec1)
    moreover have "map position_timestamp (map (Pair d) [13..96]) = map (\<lambda>q. Inr (d * 1440 + 15 * q)) [12..95]"
    proof (rule nth_equalityI)
      show "length (map position_timestamp (map (Pair d) [13..96])) = length (map (\<lambda>q. Inr (d * 1440 + 15 * q)) [12..95])"
        by (simp only: length_map length_upto)
      fix k assume "k < length (map position_timestamp (map (Pair d) [13..96]))"
      then have k: "k < 84" by (simp only: length_map length_upto)
      have a: "[13..96] ! k = 13 + int k" using k by (intro nth_upto) simp
      have b: "[12..95] ! k = 12 + int k" using k by (intro nth_upto) simp
      have la: "k < length [13..96::int]" "k < length [12..95::int]" using k by (simp_all only: length_upto)
      show "map position_timestamp (map (Pair d) [13..96]) ! k = map (\<lambda>q. Inr (d * 1440 + 15 * q)) [12..95] ! k"
        using k by (simp only: nth_map length_map la a b) (simp add: position_timestamp_regular)
    qed
    ultimately show ?thesis by (simp only: map_append)
  qed
  from ok obtain ts where ts: "sequence (map position_timestamp (check_rows df)) = Inr ts"
    and loc: "tz_localize berlin Infer ts = Inr utc"
    by (auto simp: read_tennet_def split: sum.splits)
  have lc: "length (check_rows df) = length df" by (simp add: check_rows_def)
  have lts: "length ts = length df" using sequence_length[OF ts] lc by simp
  have lu: "length utc = length df" using tz_localize_infer_length[OF loc] lts by simp
  have u: "utc ! (?m + k) = d * 1440 - off + 15 * int k" if k: "k < 92" for k
  proof -
    have j: "?m + k < length df" using k m92 by simp
    have row: "check_rows df ! (?m + k) = (d, ?pos k)" using inv k by (simp add: day_at_def)
    have "map position_timestamp (check_rows df) ! (?m + k) = Inr (ts ! (?m + k))"
      using j lc by (intro sequence_nth[OF ts]) simp
    then have "position_timestamp (d, ?pos k) = Inr (ts ! (?m + k))" using j lc row by simp
    moreover have "position_timestamp (d, ?pos k) = Inr (d * 1440 + 15 * (?pos k - 1))"
      using k by (intro position_timestamp_regular) auto
    ultimately have t: "ts ! (?m + k) = d * 1440 + 15 * (?pos k - 1)" by simp
    show ?thesis
    proof (cases "k < 8")
      case True
      then have "resolve berlin (ts ! (?m + k)) None = Inr (ts ! (?m + k) - off)"
        using before t by auto
      from tz_localize_infer_unambiguous[OF loc _ this] j lts t True show ?thesis by simp
    next
      case False
      then have "resolve berlin (ts ! (?m + k)) None = Inr (ts ! (?m + k) - (off + 60))"
        using after t k by auto
      from tz_localize_infer_unambiguous[OF loc _ this] j lts t False show ?thesis by simp
    qed
  qed
  have c4: "take 92 (drop ?m utc) = map (\<lambda>k. d * 1440 - off + 15 * int k) [0..<92]"
  proof (rule nth_equalityI)
    show "length (take 92 (drop ?m utc)) = length (map (\<lambda>k. d * 1440 - off + 15 * int k) [0..<92])"
      using lu m92 by simp
    fix k assume "k < length (take 92 (drop ?m utc))"
    then have k: "k < 92" by simp
    then show "take 92 (drop ?m utc) ! k = map (\<lambda>k. d * 1440 - off + 15 * int k) [0..<92] ! k"
      using u[OF k] lu m92 by (simp del: upt_Suc)
  qed
  from c1 c2 lu c4 show ?thesis by blast
qed

theorem read_tennet_spring_forward_witness:
  "read_tennet central_european spring_file =
     Inr (map (\<lambda>k. instant 2015 3 28 22 0 + 15 * int k) [0..<100])
   \<and> take 92 (drop 4 (check_rows spring_file)) = map (Pair march_29) ([1..8] @ [13..96])
   \<and> take 92 (drop 4 (map (\<lambda>k. instant 2015 3 28 22 0 + 15 * int k) [0..<100])) =
       map (\<lambda>k. instant 2015 3 28 23 0 + 15 * int k) [0..<92]"
proof -
  have m: "march_29 = 16523" by code_simp
  have df: "spring_file = map (Pair (march_29 - 1)) [93..96] @ map (Pair march_29) [1..92] @
      map (Pair (march_29 + 1)) [1..4]" by (rule spring_file_def)
  have other: "march_29 \<notin> fst ` set (map (Pair (march_29 - 1)) [93..96]) \<and>
      march_29 \<notin> fst ` set (map (Pair (march_29 + 1)) [1..4])" by (simp add: image_iff)
  have nxt: "map (Pair (march_29 + 1)) [1..4] = [] \<or> snd (hd (map (Pair (march_29 + 1)) [1..4])) = 1"
    by (simp add: upto_rec1)
  have before: "\<forall>l. march_29 * 1440 \<le> l \<and> l < march_29 * 1440 + 120 \<longrightarrow>
      resolve central_european l None = Inr (l - 60)"
    using spring_before by (simp add: m)
  have after: "\<forall>l. march_29 * 1440 + 180 \<le> l \<and> l < march_29 * 1440 + 1440 \<longrightarrow>
      resolve central_european l None = Inr (l - (60 + 60))"
    using spring_after by (simp add: m)
  have ok: "read_tennet central_european spring_file =
     Inr (map (\<lambda>k. instant 2015 3 28 22 0 + 15 * int k) [0..<100])" by code_simp
  have i: "march_29 * 1440 - 60 = instant 2015 3 28 23 0" by code_simp
  note t = read_tennet_spring_forward[OF df other nxt before after ok]
  have l4: "length (map (Pair (march_29 - 1)) [93..96]) = 4" by (simp only: length_map length_upto)
  from t have a: "take 92 (drop 4 (check_rows spring_file)) = map (Pair march_29) ([1..8] @ [13..96])"
    unfolding l4 by (rule conjunct1)
  from t have b: "take 92 (drop 4 (map (\<lambda>k. instant 2015 3 28 22 0 + 15 * int k) [0..<100])) =
       map (\<lambda>k. march_29 * 1440 - 60 + 15 * int k) [0..<92]"
    unfolding l4 by blast
  show ?thesis using ok a b unfolding i by blast
qed

section \<open>Inferring the repeated hour from the order of the rows\<close>















end
